theory Spec2Isabelle
  imports Main
begin

section \<open>The block service of go-ipfs (blockservice/blockservice.go)\<close>

text \<open>
  The block service mediates between a local block store and a remote exchange.
  Both are Go interfaces whose implementations live outside the package, and so are
  the identifier library, the admissibility check and the block constructors. The
  embedding takes all of them as parameters (the record \<open>env\<close>) and translates
  the code of the package itself: \<open>New\<close>, \<open>NewWriteThrough\<close>, \<open>AddBlock\<close>,
  \<open>AddBlocks\<close>, \<open>GetBlock\<close>, \<open>getBlock\<close>, \<open>GetBlocks\<close>, \<open>getBlocks\<close>,
  \<open>DeleteBlock\<close>, \<open>Close\<close> and the two read methods of \<open>Session\<close>.

  Every function returns, besides its Go result, the list of calls it made to the
  store, to the exchange and to the error log, in program order, so that "the store is
  never queried" is a statement about that list.
\<close>

subsection \<open>Values\<close>

type_synonym bytes = string

text \<open>
  Go errors are compared by identity (\<open>err == blockstore.ErrNotFound\<close>). The two
  sentinels and the two errors the package creates are constructors of their own; every
  other error value of a collaborator is \<open>Other\<close>.
\<close>

datatype error =
    BlockstoreErrNotFound
  | ErrNotFound
  | ErrClosed
  | ErrClosedFmt error
  | Other string

text \<open>A block is an identifier and its raw data. The type \<open>'c\<close> is a non-nil \<open>*cid.Cid\<close>.\<close>

record 'c block =
  Cid :: 'c
  RawData :: bytes

text \<open>Calls to the collaborators, as they appear in the code.\<close>

datatype 'c call =
    BsHas 'c
  | BsGet 'c
  | BsPut "'c block"
  | BsPutMany "'c block list"
  | BsDeleteBlock 'c
  | ExGetBlock 'c
  | ExGetBlocks "'c list"
  | ExHasBlock "'c block"
  | ExClose
  | LogUnsafeCid 'c error

fun isStoreCall :: "'c call \<Rightarrow> bool" where
  "isStoreCall (BsHas _) = True"
| "isStoreCall (BsGet _) = True"
| "isStoreCall (BsPut _) = True"
| "isStoreCall (BsPutMany _) = True"
| "isStoreCall (BsDeleteBlock _) = True"
| "isStoreCall _ = False"

fun isExchangeCall :: "'c call \<Rightarrow> bool" where
  "isExchangeCall (ExGetBlock _) = True"
| "isExchangeCall (ExGetBlocks _) = True"
| "isExchangeCall (ExHasBlock _) = True"
| "isExchangeCall ExClose = True"
| "isExchangeCall _ = False"

text \<open>
  A method called on a nil interface value panics with a nil dereference; a function
  that can do so returns \<open>Panic\<close> in place of its result.
\<close>

datatype 'a outcome = Return 'a | Panic

subsection \<open>The collaborators\<close>

text \<open>
  \<open>'s\<close> is the state of the block store and \<open>'x\<close> the state of the exchange.
  \<^item> \<open>ValidateCid\<close> is \<open>verifcid.ValidateCid\<close>; \<open>None\<close> is the nil error.
  \<^item> \<open>cid_ToPublic\<close> and \<open>KeyString\<close> are the methods of \<open>*cid.Cid\<close>.
  \<^item> \<open>blk_ToPublic\<close> is the method \<open>ToPublic\<close> of a block, and \<open>hasToPublic\<close>
    tells whether the block's dynamic type has that method (the type assertion in
    \<open>AddBlocks\<close>).
  \<^item> \<open>NewAutoDecryptedBlock\<close> is \<open>blocks.NewAutoDecryptedBlock\<close>; its second
    argument is \<open>None\<close> for a nil identifier, which is what a failed lookup in a Go
    map of pointers gives.
  \<^item> \<open>bs_Has\<close> returns both results of \<open>Has\<close>, since \<open>AddBlock\<close> reads both.
  \<^item> \<open>bs_Get\<close> and the fetches of the exchange only read the state; the writes
    return the new state together with their error.
  \<^item> \<open>ex_GetBlocks\<close> returns the blocks its channel delivers before it is closed.
\<close>

record ('c, 's, 'x) env =
  ValidateCid :: "'c \<Rightarrow> error option"
  cid_ToPublic :: "'c \<Rightarrow> 'c"
  KeyString :: "'c \<Rightarrow> string"
  blk_ToPublic :: "'c block \<Rightarrow> error + 'c block"
  hasToPublic :: "'c block \<Rightarrow> bool"
  NewAutoDecryptedBlock :: "bytes \<Rightarrow> 'c option \<Rightarrow> error + 'c block"
  bs_Has :: "'s \<Rightarrow> 'c \<Rightarrow> bool \<times> error option"
  bs_Get :: "'s \<Rightarrow> 'c \<Rightarrow> error + 'c block"
  bs_Put :: "'s \<Rightarrow> 'c block \<Rightarrow> error option \<times> 's"
  bs_PutMany :: "'s \<Rightarrow> 'c block list \<Rightarrow> error option \<times> 's"
  bs_DeleteBlock :: "'s \<Rightarrow> 'c \<Rightarrow> error option \<times> 's"
  ex_GetBlock :: "'x \<Rightarrow> 'c \<Rightarrow> error + 'c block"
  ex_GetBlocks :: "'x \<Rightarrow> 'c list \<Rightarrow> error + 'c block list"
  ex_HasBlock :: "'x \<Rightarrow> 'c block \<Rightarrow> error option \<times> 'x"
  ex_Close :: "'x \<Rightarrow> error option \<times> 'x"

subsection \<open>The service\<close>

text \<open>The struct \<open>blockService\<close>; a nil exchange is \<open>None\<close>.\<close>

record ('s, 'x) blockService =
  blockstore :: 's
  exchange :: "'x option"
  checkFirst :: bool

definition New :: "'s \<Rightarrow> 'x option \<Rightarrow> ('s, 'x) blockService" where
  "New bs rem = \<lparr>blockstore = bs, exchange = rem, checkFirst = True\<rparr>"

definition NewWriteThrough :: "'s \<Rightarrow> 'x option \<Rightarrow> ('s, 'x) blockService" where
  "NewWriteThrough bs rem = \<lparr>blockstore = bs, exchange = rem, checkFirst = False\<rparr>"

subsection \<open>AddBlock\<close>

definition AddBlock ::
  "('c, 's, 'x) env \<Rightarrow> ('s, 'x) blockService \<Rightarrow> 'c block \<Rightarrow>
     error option outcome \<times> ('s, 'x) blockService \<times> 'c call list" where
  "AddBlock E s o0 =
     (case blk_ToPublic E o0 of
        Inl err \<Rightarrow> (Return (Some err), s, [])
      | Inr ob \<Rightarrow>
          let c = Cid ob in
          (case ValidateCid E c of
             Some err \<Rightarrow> (Return (Some err), s, [])
           | None \<Rightarrow>
               let (has, herr) =
                     (if checkFirst s then bs_Has E (blockstore s) c else (False, None));
                   cs1 = (if checkFirst s then [BsHas c] else [])
               in if has \<or> herr \<noteq> None then (Return herr, s, cs1)
                  else
                    let (perr, bs') = bs_Put E (blockstore s) ob;
                        s' = s\<lparr>blockstore := bs'\<rparr>;
                        cs2 = cs1 @ [BsPut ob]
                    in if perr \<noteq> None then (Return perr, s', cs2)
                       else
                         (case exchange s of
                            None \<Rightarrow> (Panic, s', cs2)
                          | Some x \<Rightarrow>
                              let (xerr, x') = ex_HasBlock E x ob;
                                  s'' = s'\<lparr>exchange := Some x'\<rparr>;
                                  cs3 = cs2 @ [ExHasBlock ob]
                              in if xerr \<noteq> None then (Return (Some ErrClosed), s'', cs3)
                                 else (Return None, s'', cs3))))"

subsection \<open>AddBlocks\<close>

text \<open>The first loop: project every block, stop at the first error.\<close>

fun toPublicAll :: "('c, 's, 'x) env \<Rightarrow> 'c block list \<Rightarrow> error + 'c block list" where
  "toPublicAll E [] = Inr []"
| "toPublicAll E (b # bs) =
     (if hasToPublic E b then
        (case blk_ToPublic E b of
           Inl err \<Rightarrow> Inl err
         | Inr b2 \<Rightarrow>
             (case toPublicAll E bs of Inl err \<Rightarrow> Inl err | Inr bs2 \<Rightarrow> Inr (b2 # bs2)))
      else
        (case toPublicAll E bs of Inl err \<Rightarrow> Inl err | Inr bs2 \<Rightarrow> Inr (b # bs2)))"

text \<open>The second loop: validate every identifier, stop at the first error.\<close>

fun validateAll :: "('c, 's, 'x) env \<Rightarrow> 'c block list \<Rightarrow> error option" where
  "validateAll E [] = None"
| "validateAll E (b # bs) =
     (case ValidateCid E (Cid b) of Some err \<Rightarrow> Some err | None \<Rightarrow> validateAll E bs)"

text \<open>
  The third loop, in check-first mode: keep the blocks the store does not have, stop at
  the first error of \<open>Has\<close>. The calls made are returned as well.
\<close>

fun filterAbsent ::
  "('c, 's, 'x) env \<Rightarrow> 's \<Rightarrow> 'c block list \<Rightarrow> (error + 'c block list) \<times> 'c call list" where
  "filterAbsent E bs [] = (Inr [], [])"
| "filterAbsent E bs (b # rest) =
     (case bs_Has E bs (Cid b) of
        (has, Some err) \<Rightarrow> (Inl err, [BsHas (Cid b)])
      | (has, None) \<Rightarrow>
          (case filterAbsent E bs rest of
             (Inl err, cs) \<Rightarrow> (Inl err, BsHas (Cid b) # cs)
           | (Inr toput, cs) \<Rightarrow>
               (Inr (if \<not> has then b # toput else toput), BsHas (Cid b) # cs)))"

text \<open>
  The last loop: announce every block that was put, stop at the first failure. The
  exchange is not nil here.
\<close>

fun announceAll ::
  "('c, 's, 'x) env \<Rightarrow> 'x \<Rightarrow> 'c block list \<Rightarrow> error option \<times> 'x \<times> 'c call list" where
  "announceAll E x [] = (None, x, [])"
| "announceAll E x (ob # rest) =
     (case ex_HasBlock E x ob of
        (Some err, x') \<Rightarrow> (Some (ErrClosedFmt err), x', [ExHasBlock ob])
      | (None, x') \<Rightarrow>
          (case announceAll E x' rest of
             (r, x'', cs) \<Rightarrow> (r, x'', ExHasBlock ob # cs)))"

definition AddBlocks ::
  "('c, 's, 'x) env \<Rightarrow> ('s, 'x) blockService \<Rightarrow> 'c block list \<Rightarrow>
     error option outcome \<times> ('s, 'x) blockService \<times> 'c call list" where
  "AddBlocks E s bs =
     (case toPublicAll E bs of
        Inl err \<Rightarrow> (Return (Some err), s, [])
      | Inr bs2 \<Rightarrow>
          (case validateAll E bs2 of
             Some err \<Rightarrow> (Return (Some err), s, [])
           | None \<Rightarrow>
               (case (if checkFirst s then filterAbsent E (blockstore s) bs2 else (Inr bs2, [])) of
                  (Inl err, cs1) \<Rightarrow> (Return (Some err), s, cs1)
                | (Inr toput, cs1) \<Rightarrow>
                    let (perr, bs') = bs_PutMany E (blockstore s) toput;
                        s' = s\<lparr>blockstore := bs'\<rparr>;
                        cs2 = cs1 @ [BsPutMany toput]
                    in if perr \<noteq> None then (Return perr, s', cs2)
                       else
                         (case exchange s of
                            None \<Rightarrow>
                              (if toput = [] then (Return None, s', cs2) else (Panic, s', cs2))
                          | Some x \<Rightarrow>
                              (case announceAll E x toput of
                                 (r, x', cs3) \<Rightarrow>
                                   (Return r, s'\<lparr>exchange := Some x'\<rparr>, cs2 @ cs3))))))"

subsection \<open>GetBlock\<close>

text \<open>
  \<open>getBlock\<close> takes the store and the fetcher, which is \<open>None\<close> when nil. It
  changes neither, so it returns its Go result and its calls.
\<close>

definition getBlock ::
  "('c, 's, 'x) env \<Rightarrow> 'c \<Rightarrow> 's \<Rightarrow> 'x option \<Rightarrow> (error + 'c block) \<times> 'c call list" where
  "getBlock E c bs f =
     (let c2 = cid_ToPublic E c in
      case ValidateCid E c2 of
        Some err \<Rightarrow> (Inl err, [])
      | None \<Rightarrow>
          (case bs_Get E bs c2 of
             Inr blk \<Rightarrow> (NewAutoDecryptedBlock E (RawData blk) (Some c), [BsGet c2])
           | Inl err \<Rightarrow>
               let notFound =
                     (if err = BlockstoreErrNotFound then (Inl ErrNotFound, [BsGet c2])
                      else (Inl err, [BsGet c2]))
               in (case f of
                     None \<Rightarrow> notFound
                   | Some x \<Rightarrow>
                       if err = BlockstoreErrNotFound then
                         (case ex_GetBlock E x c2 of
                            Inl err2 \<Rightarrow>
                              (if err2 = BlockstoreErrNotFound
                               then (Inl ErrNotFound, [BsGet c2, ExGetBlock c2])
                               else (Inl err2, [BsGet c2, ExGetBlock c2]))
                          | Inr blk \<Rightarrow>
                              (NewAutoDecryptedBlock E (RawData blk) (Some c),
                               [BsGet c2, ExGetBlock c2]))
                       else notFound)))"

definition GetBlock ::
  "('c, 's, 'x) env \<Rightarrow> ('s, 'x) blockService \<Rightarrow> 'c \<Rightarrow> (error + 'c block) \<times> 'c call list" where
  "GetBlock E s c =
     (let f = (if exchange s \<noteq> None then exchange s else None)
      in getBlock E c (blockstore s) f)"

subsection \<open>GetBlocks\<close>

text \<open>
  The context of a batched read is the number of sends on the output channel that
  succeed before \<open>ctx.Done()\<close> wins a \<open>select\<close>; \<open>None\<close> is a context that
  never wins one. \<open>push\<close> is one \<open>select\<close>: \<open>None\<close> when the task returns, the
  rest of the context when the block was sent.
\<close>

type_synonym ctxt = "nat option"

fun push :: "ctxt \<Rightarrow> ctxt option" where
  "push None = Some None"
| "push (Some 0) = None"
| "push (Some (Suc n)) = Some (Some n)"

text \<open>The map from the key string of the public form to the caller's identifier.\<close>

definition buildMapping :: "('c, 's, 'x) env \<Rightarrow> 'c list \<Rightarrow> (string \<rightharpoonup> 'c)" where
  "buildMapping E ks = fold (\<lambda>c m. m(KeyString E (cid_ToPublic E c) \<mapsto> c)) ks Map.empty"

text \<open>The validation loop: an inadmissible identifier is logged.\<close>

fun logUnsafe :: "('c, 's, 'x) env \<Rightarrow> 'c list \<Rightarrow> 'c call list" where
  "logUnsafe E [] = []"
| "logUnsafe E (c # cs) =
     (case ValidateCid E c of
        Some err \<Rightarrow> LogUnsafeCid c err # logUnsafe E cs
      | None \<Rightarrow> logUnsafe E cs)"

text \<open>
  The scan of the local store. It returns the misses, the blocks sent, the calls made,
  and the context left, or \<open>None\<close> for it when the task has returned from a
  \<open>select\<close>.
\<close>

fun localScan ::
  "('c, 's, 'x) env \<Rightarrow> 's \<Rightarrow> (string \<rightharpoonup> 'c) \<Rightarrow> 'c list \<Rightarrow> ctxt \<Rightarrow>
     'c list \<times> 'c block list \<times> 'c call list \<times> ctxt option" where
  "localScan E bs mapping [] ctx = ([], [], [], Some ctx)"
| "localScan E bs mapping (c # cs) ctx =
     (case bs_Get E bs c of
        Inl err \<Rightarrow>
          (case localScan E bs mapping cs ctx of
             (misses, sent, calls, r) \<Rightarrow> (c # misses, sent, BsGet c # calls, r))
      | Inr hit \<Rightarrow>
          (case NewAutoDecryptedBlock E (RawData hit) (mapping (KeyString E c)) of
             Inl err \<Rightarrow>
               (case localScan E bs mapping cs ctx of
                  (misses, sent, calls, r) \<Rightarrow> (misses, sent, BsGet c # calls, r))
           | Inr hit2 \<Rightarrow>
               (case push ctx of
                  None \<Rightarrow> ([], [], [BsGet c], None)
                | Some ctx' \<Rightarrow>
                    (case localScan E bs mapping cs ctx' of
                       (misses, sent, calls, r) \<Rightarrow>
                         (misses, hit2 # sent, BsGet c # calls, r)))))"

text \<open>The loop over the blocks of the exchange's channel; it returns the blocks sent.\<close>

fun forward ::
  "('c, 's, 'x) env \<Rightarrow> (string \<rightharpoonup> 'c) \<Rightarrow> 'c block list \<Rightarrow> ctxt \<Rightarrow> 'c block list" where
  "forward E mapping [] ctx = []"
| "forward E mapping (b # rblocks) ctx =
     (case NewAutoDecryptedBlock E (RawData b) (mapping (KeyString E (Cid b))) of
        Inl err \<Rightarrow> forward E mapping rblocks ctx
      | Inr b2 \<Rightarrow>
          (case push ctx of
             None \<Rightarrow> []
           | Some ctx' \<Rightarrow> b2 # forward E mapping rblocks ctx'))"

text \<open>
  \<open>getBlocks\<close> returns how the background task ended (\<open>Return ()\<close>: it returned and
  closed the channel), the blocks the channel carried, and the calls made.
\<close>

definition getBlocks ::
  "('c, 's, 'x) env \<Rightarrow> ctxt \<Rightarrow> 'c list \<Rightarrow> 's \<Rightarrow> 'x option \<Rightarrow>
     unit outcome \<times> 'c block list \<times> 'c call list" where
  "getBlocks E ctx ks bs f =
     (let ks2 = map (cid_ToPublic E) ks;
          mapping = buildMapping E ks;
          logs = logUnsafe E ks2
      in case localScan E bs mapping ks2 ctx of
           (misses, sent, calls, None) \<Rightarrow> (Return (), sent, logs @ calls)
         | (misses, sent, calls, Some ctx') \<Rightarrow>
             if length misses = 0 then (Return (), sent, logs @ calls)
             else
               (case f of
                  None \<Rightarrow> (Panic, sent, logs @ calls)
                | Some x \<Rightarrow>
                    (case ex_GetBlocks E x misses of
                       Inl err \<Rightarrow> (Return (), sent, logs @ calls @ [ExGetBlocks misses])
                     | Inr rblocks \<Rightarrow>
                         (Return (), sent @ forward E mapping rblocks ctx',
                          logs @ calls @ [ExGetBlocks misses]))))"

definition GetBlocks ::
  "('c, 's, 'x) env \<Rightarrow> ('s, 'x) blockService \<Rightarrow> ctxt \<Rightarrow> 'c list \<Rightarrow>
     unit outcome \<times> 'c block list \<times> 'c call list" where
  "GetBlocks E s ctx ks = getBlocks E ctx ks (blockstore s) (exchange s)"

subsection \<open>DeleteBlock, Close and the session\<close>

definition DeleteBlock ::
  "('c, 's, 'x) env \<Rightarrow> ('s, 'x) blockService \<Rightarrow> 'c \<Rightarrow>
     error option \<times> ('s, 'x) blockService \<times> 'c call list" where
  "DeleteBlock E s c =
     (let c2 = cid_ToPublic E c;
          (err, bs') = bs_DeleteBlock E (blockstore s) c2
      in (err, s\<lparr>blockstore := bs'\<rparr>, [BsDeleteBlock c2]))"

definition Close ::
  "('c, 's, 'x) env \<Rightarrow> ('s, 'x) blockService \<Rightarrow>
     error option outcome \<times> ('s, 'x) blockService \<times> 'c call list" where
  "Close E s =
     (case exchange s of
        None \<Rightarrow> (Panic, s, [])
      | Some x \<Rightarrow>
          let (err, x') = ex_Close E x in (Return err, s\<lparr>exchange := Some x'\<rparr>, [ExClose]))"

record ('s, 'x) Session =
  bs :: 's
  ses :: "'x option"

definition Session_GetBlock ::
  "('c, 's, 'x) env \<Rightarrow> ('s, 'x) Session \<Rightarrow> 'c \<Rightarrow> (error + 'c block) \<times> 'c call list" where
  "Session_GetBlock E s c = getBlock E c (bs s) (ses s)"

definition Session_GetBlocks ::
  "('c, 's, 'x) env \<Rightarrow> ('s, 'x) Session \<Rightarrow> ctxt \<Rightarrow> 'c list \<Rightarrow>
     unit outcome \<times> 'c block list \<times> 'c call list" where
  "Session_GetBlocks E s ctx ks = getBlocks E ctx ks (bs s) (ses s)"

section \<open>Notions used in the statements\<close>

text \<open>
  What the first loop of \<open>AddBlocks\<close> does to one block, and what the first two loops
  demand of it: a block is admissible when its projection succeeds and the identifier of
  the projection passes \<open>ValidateCid\<close>.
\<close>

definition projection :: "('c, 's, 'x) env \<Rightarrow> 'c block \<Rightarrow> error + 'c block" where
  "projection E b = (if hasToPublic E b then blk_ToPublic E b else Inr b)"

definition admissible :: "('c, 's, 'x) env \<Rightarrow> 'c block \<Rightarrow> bool" where
  "admissible E b =
     (case projection E b of
        Inl err \<Rightarrow> False
      | Inr b2 \<Rightarrow> ValidateCid E (Cid b2) = None)"

text \<open>
  \<open>staysLive ctx n\<close>: the context lets at least \<open>n\<close> more sends through before
  \<open>ctx.Done()\<close> wins a \<open>select\<close>.
\<close>

fun staysLive :: "ctxt \<Rightarrow> nat \<Rightarrow> bool" where
  "staysLive None n = True"
| "staysLive (Some k) n = (n \<le> k)"

text \<open>
  The blocks the local scan of a batched read sends when the context is never done,
  that is, the sends it attempts.
\<close>

definition localHits :: "('c, 's, 'x) env \<Rightarrow> 's \<Rightarrow> 'c list \<Rightarrow> 'c block list" where
  "localHits E st ks =
     fst (snd (localScan E st (buildMapping E ks) (map (cid_ToPublic E) ks) None))"

text \<open>
  Contracts of the collaborators that the batched read relies on and does not enforce.
  \<open>keepsIdentifier\<close>: a block built by \<open>NewAutoDecryptedBlock\<close> for a non-nil
  identifier carries that identifier. \<open>rejectsNil\<close>: \<open>NewAutoDecryptedBlock\<close> fails
  for a nil identifier. \<open>deliversOnlyRequested\<close>: the channel of a batched fetch
  carries only blocks whose identifier was asked for. \<open>deliversNoRepeats\<close>: it
  carries no identifier twice.
\<close>

definition keepsIdentifier :: "('c, 's, 'x) env \<Rightarrow> bool" where
  "keepsIdentifier E =
     (\<forall>d c b. NewAutoDecryptedBlock E d (Some c) = Inr b \<longrightarrow> Cid b = c)"

definition rejectsNil :: "('c, 's, 'x) env \<Rightarrow> bool" where
  "rejectsNil E = (\<forall>d. isl (NewAutoDecryptedBlock E d None))"

definition deliversOnlyRequested :: "('c, 's, 'x) env \<Rightarrow> 'x \<Rightarrow> bool" where
  "deliversOnlyRequested E x =
     (\<forall>misses rblocks. ex_GetBlocks E x misses = Inr rblocks \<longrightarrow>
        set (map Cid rblocks) \<subseteq> set misses)"

definition deliversNoRepeats :: "('c, 's, 'x) env \<Rightarrow> 'x \<Rightarrow> bool" where
  "deliversNoRepeats E x =
     (\<forall>misses rblocks. ex_GetBlocks E x misses = Inr rblocks \<longrightarrow>
        distinct (map Cid rblocks))"

section \<open>A test double for the collaborators\<close>

text \<open>
  A concrete store, exchange and identifier type, on which the functions above can be
  run. An identifier is a hash function
  code, a digest and optional key material; the public form drops the key material; the
  admissibility check refuses the hash function 0 and digests shorter than two bytes.
  The store holds an association list and can be broken (every operation then fails with
  an input/output error); the exchange has the blocks its peers hold and the blocks its
  channel carries on a batched fetch, of which it delivers those that were asked for,
  and it can be closed.
\<close>

datatype tcid = TCid (hashfn: nat) (digest: string) (keymat: "string option")

record tstore =
  held :: "(tcid \<times> bytes) list"
  broken :: bool

record texchange =
  peers :: "(tcid \<times> bytes) list"
  channel :: "tcid block list"
  closed :: bool

definition testValidate :: "tcid \<Rightarrow> error option" where
  "testValidate c =
     (if hashfn c = 0 then Some (Other ''insecure hash function'')
      else if length (digest c) < 2 then Some (Other ''digest too short'')
      else None)"

definition testPublic :: "tcid \<Rightarrow> tcid" where
  "testPublic c = TCid (hashfn c) (digest c) None"

definition testDecrypted :: "bytes \<Rightarrow> tcid option \<Rightarrow> error + tcid block" where
  "testDecrypted d c =
     (case c of
        None \<Rightarrow> Inl (Other ''nil identifier'')
      | Some c' \<Rightarrow> Inr \<lparr>Cid = c', RawData = d\<rparr>)"

definition testGet :: "tstore \<Rightarrow> tcid \<Rightarrow> error + tcid block" where
  "testGet st c =
     (if broken st then Inl (Other ''input/output error'')
      else (case map_of (held st) c of
              None \<Rightarrow> Inl BlockstoreErrNotFound
            | Some d \<Rightarrow> Inr \<lparr>Cid = c, RawData = d\<rparr>))"

definition testHas :: "tstore \<Rightarrow> tcid \<Rightarrow> bool \<times> error option" where
  "testHas st c =
     (if broken st then (False, Some (Other ''input/output error''))
      else (map_of (held st) c \<noteq> None, None))"

definition testPutMany :: "tstore \<Rightarrow> tcid block list \<Rightarrow> error option \<times> tstore" where
  "testPutMany st blks =
     (if broken st then (Some (Other ''input/output error''), st)
      else (None, st\<lparr>held := map (\<lambda>b. (Cid b, RawData b)) (rev blks) @ held st\<rparr>))"

definition testDelete :: "tstore \<Rightarrow> tcid \<Rightarrow> error option \<times> tstore" where
  "testDelete st c =
     (if broken st then (Some (Other ''input/output error''), st)
      else (None, st\<lparr>held := filter (\<lambda>p. fst p \<noteq> c) (held st)\<rparr>))"

definition testFetch :: "texchange \<Rightarrow> tcid \<Rightarrow> error + tcid block" where
  "testFetch x c =
     (if closed x then Inl (Other ''exchange closed'')
      else (case map_of (peers x) c of
              None \<Rightarrow> Inl BlockstoreErrNotFound
            | Some d \<Rightarrow> Inr \<lparr>Cid = c, RawData = d\<rparr>))"

definition testFetchMany :: "texchange \<Rightarrow> tcid list \<Rightarrow> error + tcid block list" where
  "testFetchMany x cs =
     (if closed x then Inl (Other ''exchange closed'')
      else Inr (filter (\<lambda>b. Cid b \<in> set cs) (channel x)))"

definition testAnnounce :: "texchange \<Rightarrow> tcid block \<Rightarrow> error option \<times> texchange" where
  "testAnnounce x b = (if closed x then (Some (Other ''exchange closed''), x) else (None, x))"

definition testEnv :: "(tcid, tstore, texchange) env" where
  "testEnv =
     \<lparr>ValidateCid = testValidate,
      cid_ToPublic = testPublic,
      KeyString = (\<lambda>c. digest c),
      blk_ToPublic = (\<lambda>b. Inr \<lparr>Cid = testPublic (Cid b), RawData = RawData b\<rparr>),
      hasToPublic = (\<lambda>b. True),
      NewAutoDecryptedBlock = testDecrypted,
      bs_Has = testHas,
      bs_Get = testGet,
      bs_Put = (\<lambda>st b. testPutMany st [b]),
      bs_PutMany = testPutMany,
      bs_DeleteBlock = testDelete,
      ex_GetBlock = testFetch,
      ex_GetBlocks = testFetchMany,
      ex_HasBlock = testAnnounce,
      ex_Close = (\<lambda>x. (None, x\<lparr>closed := True\<rparr>))\<rparr>"

text \<open>Identifiers, blocks, stores and exchanges used in the examples.\<close>

definition cidA :: tcid where "cidA = TCid 18 ''aaaa'' None"
definition cidB :: tcid where "cidB = TCid 18 ''bbbb'' None"
definition cidBad :: tcid where "cidBad = TCid 0 ''zzzz'' None"

definition blkA :: "tcid block" where "blkA = \<lparr>Cid = cidA, RawData = ''alpha''\<rparr>"
definition blkB :: "tcid block" where "blkB = \<lparr>Cid = cidB, RawData = ''beta''\<rparr>"
definition blkBad :: "tcid block" where "blkBad = \<lparr>Cid = cidBad, RawData = ''zeta''\<rparr>"

definition emptyStore :: tstore where "emptyStore = \<lparr>held = [], broken = False\<rparr>"
definition storeA :: tstore where "storeA = \<lparr>held = [(cidA, ''alpha'')], broken = False\<rparr>"
definition brokenStore :: tstore where "brokenStore = \<lparr>held = [], broken = True\<rparr>"
definition storeBad :: tstore where "storeBad = \<lparr>held = [(cidBad, ''zeta'')], broken = False\<rparr>"

definition openExchange :: texchange where
  "openExchange = \<lparr>peers = [(cidB, ''beta'')], channel = [blkB], closed = False\<rparr>"
definition closedExchange :: texchange where
  "closedExchange = \<lparr>peers = [], channel = [], closed = True\<rparr>"
definition repeatingExchange :: texchange where
  "repeatingExchange = \<lparr>peers = [(cidB, ''beta'')], channel = [blkB, blkB], closed = False\<rparr>"

text \<open>
  An identifier with key material whose public form is \<open>cidA\<close>; an exchange whose
  channel also carries a block that the store holds; and the test double with an
  exchange that delivers its whole channel, whatever was asked for.
\<close>

definition cidAKey :: tcid where "cidAKey = TCid 18 ''aaaa'' (Some ''key'')"

definition eagerExchange :: texchange where
  "eagerExchange = \<lparr>peers = [], channel = [blkA, blkB], closed = False\<rparr>"

definition looseEnv :: "(tcid, tstore, texchange) env" where
  "looseEnv = testEnv\<lparr>ex_GetBlocks :=
     (\<lambda>x cs. if closed x then Inl (Other ''exchange closed'') else Inr (channel x))\<rparr>"

section \<open>Properties\<close>

lemmas test_defs =
  testEnv_def testValidate_def testPublic_def testDecrypted_def testGet_def testHas_def
  testPutMany_def testDelete_def testFetch_def testFetchMany_def testAnnounce_def
  cidA_def cidB_def blkA_def blkB_def emptyStore_def storeA_def openExchange_def

subsection \<open>Single-key read and single write\<close>

text \<open>
  Claim C6. When the public form of an identifier fails the admissibility check (in the
  test double: a refused hash function, or a digest that is too short), the single-key
  read returns the check's error and the single write returns the check's error; the
  read makes no call to the store or to the exchange, and the write makes none and
  leaves the service as it was.
\<close>

theorem inadmissible_identifier_fails_untouched:
  "(ValidateCid E (cid_ToPublic E c) = Some err \<longrightarrow> GetBlock E s c = (Inl err, []))
   \<and> (blk_ToPublic E b = Inr ob \<and> ValidateCid E (Cid ob) = Some err' \<longrightarrow>
        AddBlock E s b = (Return (Some err'), s, []))"
  by (simp add: GetBlock_def getBlock_def AddBlock_def)

theorem inadmissible_identifier_fails_untouched_witness:
  "ValidateCid testEnv (cid_ToPublic testEnv cidBad) = Some (Other ''insecure hash function'')
   \<and> GetBlock testEnv (New storeA (Some openExchange)) cidBad
       = (Inl (Other ''insecure hash function''), [])
   \<and> blk_ToPublic testEnv \<lparr>Cid = TCid 18 ''z'' (Some ''key''), RawData = ''zeta''\<rparr>
       = Inr \<lparr>Cid = TCid 18 ''z'' None, RawData = ''zeta''\<rparr>
   \<and> ValidateCid testEnv (TCid 18 ''z'' None) = Some (Other ''digest too short'')
   \<and> AddBlock testEnv (New storeA (Some openExchange))
        \<lparr>Cid = TCid 18 ''z'' (Some ''key''), RawData = ''zeta''\<rparr>
       = (Return (Some (Other ''digest too short'')), New storeA (Some openExchange), [])"
  using inadmissible_identifier_fails_untouched
          [of testEnv cidBad "Other ''insecure hash function''"
              "New storeA (Some openExchange)"
              "\<lparr>Cid = TCid 18 ''z'' (Some ''key''), RawData = ''zeta''\<rparr>"
              "\<lparr>Cid = TCid 18 ''z'' None, RawData = ''zeta''\<rparr>"
              "Other ''digest too short''"]
  by (simp add: test_defs cidBad_def)

text \<open>
  Claim C8. With no remote fetcher (a nil exchange), a single-key read of an admissible
  identifier that the local store reports as not found returns the service's own
  not-found error; the only call made is the store's \<open>Get\<close>, so no exchange is
  contacted and no method is called on the nil exchange.
\<close>

theorem offline_miss_is_not_found:
  assumes "exchange s = None"
      and "ValidateCid E (cid_ToPublic E c) = None"
      and "bs_Get E (blockstore s) (cid_ToPublic E c) = Inl BlockstoreErrNotFound"
  shows "GetBlock E s c = (Inl ErrNotFound, [BsGet (cid_ToPublic E c)])"
  using assms by (simp add: GetBlock_def getBlock_def)

theorem offline_miss_is_not_found_witness:
  "exchange (New emptyStore (None :: texchange option)) = None
   \<and> ValidateCid testEnv (cid_ToPublic testEnv cidB) = None
   \<and> bs_Get testEnv (blockstore (New emptyStore (None :: texchange option)))
         (cid_ToPublic testEnv cidB)
       = Inl BlockstoreErrNotFound
   \<and> GetBlock testEnv (New emptyStore None) cidB = (Inl ErrNotFound, [BsGet cidB])"
proof -
  have h1: "exchange (New emptyStore (None :: texchange option)) = None"
    by (simp add: New_def)
  have h2: "ValidateCid testEnv (cid_ToPublic testEnv cidB) = None"
    by (simp add: test_defs)
  have h3: "bs_Get testEnv (blockstore (New emptyStore (None :: texchange option)))
              (cid_ToPublic testEnv cidB) = Inl BlockstoreErrNotFound"
    by (simp add: test_defs New_def)
  have pub: "cid_ToPublic testEnv cidB = cidB"
    by (simp add: test_defs)
  from offline_miss_is_not_found [OF h1 h2 h3] h1 h2 h3 pub show ?thesis
    by simp
qed

text \<open>
  Claim C10. In a single-key read of an admissible identifier, when the store's
  \<open>Get\<close> fails with an error other than its not-found sentinel, that error is
  returned as it is and the only call made is that \<open>Get\<close>, whether or not a remote
  fetcher is configured. Conversely, whenever the read calls the exchange, the store's
  \<open>Get\<close> had failed with the not-found sentinel.
\<close>

theorem store_failure_is_returned_without_fetch:
  "(ValidateCid E (cid_ToPublic E c) = None \<and>
    bs_Get E (blockstore s) (cid_ToPublic E c) = Inl err \<and> err \<noteq> BlockstoreErrNotFound \<longrightarrow>
      GetBlock E s c = (Inl err, [BsGet (cid_ToPublic E c)]))
   \<and> ((\<exists>k \<in> set (snd (GetBlock E s c)). isExchangeCall k) \<longrightarrow>
        bs_Get E (blockstore s) (cid_ToPublic E c) = Inl BlockstoreErrNotFound)"
  by (auto simp add: GetBlock_def getBlock_def Let_def
           split: option.splits sum.splits if_splits)

theorem store_failure_is_returned_without_fetch_witness:
  "ValidateCid testEnv (cid_ToPublic testEnv cidB) = None
   \<and> bs_Get testEnv (blockstore (New brokenStore (Some openExchange))) (cid_ToPublic testEnv cidB)
       = Inl (Other ''input/output error'')
   \<and> Other ''input/output error'' \<noteq> BlockstoreErrNotFound
   \<and> GetBlock testEnv (New brokenStore (Some openExchange)) cidB
       = (Inl (Other ''input/output error''), [BsGet cidB])
   \<and> (\<exists>k \<in> set (snd (GetBlock testEnv (New emptyStore (Some openExchange)) cidB)).
         isExchangeCall k)
   \<and> bs_Get testEnv (blockstore (New emptyStore (Some openExchange))) (cid_ToPublic testEnv cidB)
       = Inl BlockstoreErrNotFound"
  using store_failure_is_returned_without_fetch
          [of testEnv cidB "New brokenStore (Some openExchange)" "Other ''input/output error''"]
        store_failure_is_returned_without_fetch
          [of testEnv cidB "New emptyStore (Some openExchange)" "Other ''input/output error''"]
  by (simp add: test_defs brokenStore_def New_def GetBlock_def getBlock_def Let_def)

text \<open>
  Claim C5, as stated: in write-through mode \<open>AddBlock\<close> always persists a valid
  block and always announces it. In write-through mode, when the store's \<open>Put\<close>
  fails, \<open>AddBlock\<close> returns that error after the \<open>Put\<close> and announces nothing;
  and with a nil exchange the call of \<open>HasBlock\<close> that follows a successful \<open>Put\<close>
  is the nil-dereference panic.
\<close>

theorem AddBlock_write_through_without_announcement:
  "\<not> checkFirst (NewWriteThrough brokenStore (Some openExchange))
   \<and> blk_ToPublic testEnv blkA = Inr blkA \<and> ValidateCid testEnv (Cid blkA) = None
   \<and> AddBlock testEnv (NewWriteThrough brokenStore (Some openExchange)) blkA
       = (Return (Some (Other ''input/output error'')),
          NewWriteThrough brokenStore (Some openExchange), [BsPut blkA])
   \<and> AddBlock testEnv (NewWriteThrough storeA None) blkA
       = (Panic,
          NewWriteThrough \<lparr>held = [(cidA, ''alpha''), (cidA, ''alpha'')], broken = False\<rparr> None,
          [BsPut blkA])"
  by (simp add: test_defs brokenStore_def NewWriteThrough_def AddBlock_def Let_def)

text \<open>
  Claim C5, amended. Let \<open>b\<close> be a block whose public projection \<open>ob\<close> is admissible.
  In check-first mode, if the store reports that it has \<open>ob\<close>'s identifier, \<open>AddBlock\<close>
  returns success, leaves the service as it was and calls nothing but \<open>Has\<close>. In
  write-through mode \<open>Has\<close> is never called: the first call is always the \<open>Put\<close> of
  \<open>ob\<close>, whatever the store holds, and when that \<open>Put\<close> succeeds and an exchange is
  configured the block is always announced to it.
\<close>

theorem AddBlock_check_first_and_write_through:
  assumes "blk_ToPublic E b = Inr ob" and "ValidateCid E (Cid ob) = None"
  shows "(checkFirst s \<and> bs_Has E (blockstore s) (Cid ob) = (True, None) \<longrightarrow>
            AddBlock E s b = (Return None, s, [BsHas (Cid ob)]))
       \<and> (\<not> checkFirst s \<longrightarrow>
            (\<exists>r s' cs. AddBlock E s b = (r, s', BsPut ob # cs)
               \<and> blockstore s' = snd (bs_Put E (blockstore s) ob)
               \<and> (cs = [] \<or> cs = [ExHasBlock ob])))
       \<and> (\<not> checkFirst s \<and> bs_Put E (blockstore s) ob = (None, st') \<and> exchange s = Some x \<longrightarrow>
            AddBlock E s b =
              (Return (if fst (ex_HasBlock E x ob) = None then None else Some ErrClosed),
               s\<lparr>blockstore := st', exchange := Some (snd (ex_HasBlock E x ob))\<rparr>,
               [BsPut ob, ExHasBlock ob]))"
  using assms
  by (auto simp add: AddBlock_def Let_def split: prod.splits option.splits)

theorem AddBlock_check_first_and_write_through_witness:
  "blk_ToPublic testEnv blkA = Inr blkA
   \<and> ValidateCid testEnv (Cid blkA) = None
   \<and> checkFirst (New storeA (Some openExchange))
   \<and> bs_Has testEnv (blockstore (New storeA (Some openExchange))) (Cid blkA) = (True, None)
   \<and> AddBlock testEnv (New storeA (Some openExchange)) blkA
       = (Return None, New storeA (Some openExchange), [BsHas cidA])
   \<and> \<not> checkFirst (NewWriteThrough storeA (Some openExchange))
   \<and> bs_Has testEnv (blockstore (NewWriteThrough storeA (Some openExchange))) (Cid blkA)
       = (True, None)
   \<and> bs_Put testEnv (blockstore (NewWriteThrough storeA (Some openExchange))) blkA
       = (None, \<lparr>held = [(cidA, ''alpha''), (cidA, ''alpha'')], broken = False\<rparr>)
   \<and> AddBlock testEnv (NewWriteThrough storeA (Some openExchange)) blkA
       = (Return None,
          NewWriteThrough \<lparr>held = [(cidA, ''alpha''), (cidA, ''alpha'')], broken = False\<rparr>
            (Some openExchange),
          [BsPut blkA, ExHasBlock blkA])"
  using AddBlock_check_first_and_write_through
          [of testEnv blkA blkA "New storeA (Some openExchange)"
              "\<lparr>held = [(cidA, ''alpha''), (cidA, ''alpha'')], broken = False\<rparr>" openExchange]
        AddBlock_check_first_and_write_through
          [of testEnv blkA blkA "NewWriteThrough storeA (Some openExchange)"
              "\<lparr>held = [(cidA, ''alpha''), (cidA, ''alpha'')], broken = False\<rparr>" openExchange]
  by (simp add: test_defs New_def NewWriteThrough_def)

subsection \<open>Batched write\<close>

lemma toPublicAll_Inr:
  "toPublicAll E blks = Inr blks2 \<Longrightarrow> b \<in> set blks \<Longrightarrow>
     \<exists>b2 \<in> set blks2. projection E b = Inr b2"
  by (induction blks arbitrary: blks2) (auto simp: projection_def split: if_splits sum.splits)

lemma validateAll_None:
  "validateAll E blks2 = None \<longleftrightarrow> (\<forall>b2 \<in> set blks2. ValidateCid E (Cid b2) = None)"
  by (induction blks2) (auto split: option.splits)

lemma inadmissible_stops_batch:
  assumes "b \<in> set blks" and "\<not> admissible E b" and "toPublicAll E blks = Inr blks2"
  shows "validateAll E blks2 \<noteq> None"
proof -
  from toPublicAll_Inr [OF assms(3) assms(1)]
  obtain b2 where "b2 \<in> set blks2" and "projection E b = Inr b2"
    by blast
  with assms(2) have "ValidateCid E (Cid b2) \<noteq> None"
    by (simp add: admissible_def)
  with \<open>b2 \<in> set blks2\<close> show ?thesis
    by (auto simp: validateAll_None)
qed

text \<open>
  Claim C4. If any block of a batch is not admissible (its projection fails, or the
  identifier of its projection fails the admissibility check), \<open>AddBlocks\<close> returns an
  error, the service is as it was, and no call has been made: nothing is written to the
  store and nothing is announced to the exchange.
\<close>

theorem AddBlocks_aborts_before_any_write:
  assumes "\<exists>b \<in> set blks. \<not> admissible E b"
  shows "\<exists>err. AddBlocks E s blks = (Return (Some err), s, [])"
proof (cases "toPublicAll E blks")
  case (Inl err)
  then show ?thesis by (simp add: AddBlocks_def)
next
  case (Inr blks2)
  from assms obtain b where "b \<in> set blks" and "\<not> admissible E b" by blast
  then have "validateAll E blks2 \<noteq> None"
    using Inr by (rule inadmissible_stops_batch)
  then obtain err where "validateAll E blks2 = Some err" by blast
  with Inr show ?thesis by (simp add: AddBlocks_def)
qed

theorem AddBlocks_aborts_before_any_write_witness:
  "blkBad \<in> set [blkA, blkB, blkBad, blkA, blkB]
   \<and> \<not> admissible testEnv blkBad
   \<and> AddBlocks testEnv (NewWriteThrough emptyStore (Some openExchange))
        [blkA, blkB, blkBad, blkA, blkB]
       = (Return (Some (Other ''insecure hash function'')),
          NewWriteThrough emptyStore (Some openExchange), [])"
  using AddBlocks_aborts_before_any_write
          [of "[blkA, blkB, blkBad, blkA, blkB]" testEnv
              "NewWriteThrough emptyStore (Some openExchange)"]
  by (simp add: admissible_def projection_def AddBlocks_def test_defs cidBad_def blkBad_def)

lemma announceAll_append:
  "announceAll E x pre = (None, x1, cs) \<Longrightarrow>
     cs = map ExHasBlock pre \<and>
     announceAll E x (pre @ rest) =
       (case announceAll E x1 rest of (r, x2, cs2) \<Rightarrow> (r, x2, map ExHasBlock pre @ cs2))"
  by (induction pre arbitrary: x cs) (auto split: prod.splits option.splits)

text \<open>
  Claim C7. \<open>AddBlock\<close>: when the block is admissible, the write is not skipped by the
  existence check, the store's \<open>Put\<close> succeeds and the exchange's \<open>HasBlock\<close> fails,
  the call returns the error "blockservice is closed" and the store is in the state
  \<open>Put\<close> left it in: no call follows the announcement. \<open>AddBlocks\<close>: when
  \<open>PutMany\<close> of the list \<open>pre @ ob2 # post\<close> succeeds, the announcements of
  \<open>pre\<close> succeed and the announcement of \<open>ob2\<close> fails, the call returns the
  formatted "blockservice is closed" error, the store is in the state \<open>PutMany\<close> left
  it in, and the calls end with the failed announcement: no block of \<open>post\<close> is
  announced.
\<close>

theorem announce_failure_keeps_the_write:
  "(blk_ToPublic E b = Inr ob \<and> ValidateCid E (Cid ob) = None \<and>
    (checkFirst s \<longrightarrow> bs_Has E (blockstore s) (Cid ob) = (False, None)) \<and>
    bs_Put E (blockstore s) ob = (None, st') \<and>
    exchange s = Some x \<and> ex_HasBlock E x ob = (Some e, x') \<longrightarrow>
      AddBlock E s b =
        (Return (Some ErrClosed), s\<lparr>blockstore := st', exchange := Some x'\<rparr>,
         (if checkFirst s then [BsHas (Cid ob)] else []) @ [BsPut ob, ExHasBlock ob]))
   \<and> (toPublicAll E blks = Inr blks2 \<and> validateAll E blks2 = None \<and>
      (if checkFirst t then filterAbsent E (blockstore t) blks2 else (Inr blks2, []))
        = (Inr (pre @ ob2 # post), cs1) \<and>
      bs_PutMany E (blockstore t) (pre @ ob2 # post) = (None, st2) \<and>
      exchange t = Some y \<and> announceAll E y pre = (None, y1, cs2) \<and>
      ex_HasBlock E y1 ob2 = (Some e2, y2) \<longrightarrow>
        AddBlocks E t blks =
          (Return (Some (ErrClosedFmt e2)), t\<lparr>blockstore := st2, exchange := Some y2\<rparr>,
           cs1 @ [BsPutMany (pre @ ob2 # post)] @ map ExHasBlock pre @ [ExHasBlock ob2]))"
proof (intro conjI impI)
  assume "blk_ToPublic E b = Inr ob \<and> ValidateCid E (Cid ob) = None \<and>
    (checkFirst s \<longrightarrow> bs_Has E (blockstore s) (Cid ob) = (False, None)) \<and>
    bs_Put E (blockstore s) ob = (None, st') \<and>
    exchange s = Some x \<and> ex_HasBlock E x ob = (Some e, x')"
  then show "AddBlock E s b =
        (Return (Some ErrClosed), s\<lparr>blockstore := st', exchange := Some x'\<rparr>,
         (if checkFirst s then [BsHas (Cid ob)] else []) @ [BsPut ob, ExHasBlock ob])"
    by (simp add: AddBlock_def)
next
  assume h: "toPublicAll E blks = Inr blks2 \<and> validateAll E blks2 = None \<and>
      (if checkFirst t then filterAbsent E (blockstore t) blks2 else (Inr blks2, []))
        = (Inr (pre @ ob2 # post), cs1) \<and>
      bs_PutMany E (blockstore t) (pre @ ob2 # post) = (None, st2) \<and>
      exchange t = Some y \<and> announceAll E y pre = (None, y1, cs2) \<and>
      ex_HasBlock E y1 ob2 = (Some e2, y2)"
  then have "announceAll E y (pre @ ob2 # post) =
      (Some (ErrClosedFmt e2), y2, map ExHasBlock pre @ [ExHasBlock ob2])"
    using announceAll_append [of E y pre y1 cs2 "ob2 # post"] by simp
  with h show "AddBlocks E t blks =
          (Return (Some (ErrClosedFmt e2)), t\<lparr>blockstore := st2, exchange := Some y2\<rparr>,
           cs1 @ [BsPutMany (pre @ ob2 # post)] @ map ExHasBlock pre @ [ExHasBlock ob2])"
    by (simp add: AddBlocks_def)
qed

theorem announce_failure_keeps_the_write_witness:
  "blk_ToPublic testEnv blkA = Inr blkA \<and> ValidateCid testEnv (Cid blkA) = None
   \<and> bs_Has testEnv emptyStore (Cid blkA) = (False, None)
   \<and> bs_Put testEnv emptyStore blkA = (None, storeA)
   \<and> ex_HasBlock testEnv closedExchange blkA = (Some (Other ''exchange closed''), closedExchange)
   \<and> AddBlock testEnv (New emptyStore (Some closedExchange)) blkA
       = (Return (Some ErrClosed), New storeA (Some closedExchange),
          [BsHas cidA, BsPut blkA, ExHasBlock blkA])
   \<and> bs_Get testEnv storeA cidA = Inr blkA
   \<and> toPublicAll testEnv [blkA, blkB] = Inr [blkA, blkB]
   \<and> validateAll testEnv [blkA, blkB] = None
   \<and> filterAbsent testEnv emptyStore [blkA, blkB] = (Inr [blkA, blkB], [BsHas cidA, BsHas cidB])
   \<and> bs_PutMany testEnv emptyStore [blkA, blkB]
       = (None, \<lparr>held = [(cidB, ''beta''), (cidA, ''alpha'')], broken = False\<rparr>)
   \<and> announceAll testEnv closedExchange [] = (None, closedExchange, [])
   \<and> AddBlocks testEnv (New emptyStore (Some closedExchange)) [blkA, blkB]
       = (Return (Some (ErrClosedFmt (Other ''exchange closed''))),
          New \<lparr>held = [(cidB, ''beta''), (cidA, ''alpha'')], broken = False\<rparr>
            (Some closedExchange),
          [BsHas cidA, BsHas cidB, BsPutMany [blkA, blkB], ExHasBlock blkA])
   \<and> bs_Get testEnv \<lparr>held = [(cidB, ''beta''), (cidA, ''alpha'')], broken = False\<rparr> cidB
       = Inr blkB"
  using announce_failure_keeps_the_write
          [of testEnv blkA blkA "New emptyStore (Some closedExchange)" storeA closedExchange
              "Other ''exchange closed''" closedExchange
              "[blkA, blkB]" "[blkA, blkB]" "New emptyStore (Some closedExchange)"
              "[]" blkA "[blkB]" "[BsHas cidA, BsHas cidB]"
              "\<lparr>held = [(cidB, ''beta''), (cidA, ''alpha'')], broken = False\<rparr>"
              closedExchange closedExchange "[]" "Other ''exchange closed''" closedExchange]
  by (simp add: test_defs closedExchange_def New_def)

subsection \<open>Batched read\<close>

lemma logUnsafe_no_exchange: "k \<in> set (logUnsafe E cs) \<Longrightarrow> \<not> isExchangeCall k"
  by (induction cs) (auto split: option.splits)

lemma localScan_no_exchange:
  "localScan E st m cs ctx = (misses, sent, calls, r) \<Longrightarrow> k \<in> set calls \<Longrightarrow> \<not> isExchangeCall k"
  by (induction cs arbitrary: ctx misses sent calls r)
     (auto split: sum.splits option.splits prod.splits)

lemma localScan_all_hits:
  "\<forall>c \<in> set cs. \<exists>blk. bs_Get E st c = Inr blk \<Longrightarrow>
     localScan E st m cs ctx = (misses, sent, calls, r) \<Longrightarrow> misses = []"
  by (induction cs arbitrary: ctx misses sent calls r)
     (auto split: sum.splits option.splits prod.splits)

text \<open>
  Claim C9. If the store's \<open>Get\<close> succeeds for the public form of every requested key,
  the background task of \<open>GetBlocks\<close> returns, which closes the output channel, and
  none of its calls is a call to the exchange. This holds for every context and also
  when the exchange is nil.
\<close>

theorem all_local_hits_never_reach_exchange:
  assumes "\<forall>c \<in> set ks. \<exists>blk. bs_Get E (blockstore s) (cid_ToPublic E c) = Inr blk"
  shows "fst (GetBlocks E s ctx ks) = Return ()
       \<and> (\<forall>k \<in> set (snd (snd (GetBlocks E s ctx ks))). \<not> isExchangeCall k)"
proof -
  obtain misses sent calls r where
    scan: "localScan E (blockstore s) (buildMapping E ks) (map (cid_ToPublic E) ks) ctx
           = (misses, sent, calls, r)"
    by (metis prod_cases4)
  from assms have "\<forall>c \<in> set (map (cid_ToPublic E) ks). \<exists>blk. bs_Get E (blockstore s) c = Inr blk"
    by simp
  from localScan_all_hits [OF this scan] have "misses = []" .
  with scan localScan_no_exchange [OF scan] show ?thesis
    by (auto simp: GetBlocks_def getBlocks_def Let_def dest: logUnsafe_no_exchange
             split: option.splits)
qed

theorem all_local_hits_never_reach_exchange_witness:
  "bs_Get testEnv (blockstore (New storeA (Some openExchange))) (cid_ToPublic testEnv cidA)
     = Inr blkA
   \<and> GetBlocks testEnv (New storeA (Some openExchange)) None [cidA]
       = (Return (), [blkA], [BsGet cidA])
   \<and> \<not> isExchangeCall (BsGet cidA)"
  using all_local_hits_never_reach_exchange
          [of "[cidA]" testEnv "New storeA (Some openExchange)" None]
  by (simp add: test_defs New_def GetBlocks_def getBlocks_def buildMapping_def)

lemma staysLive_push:
  "staysLive ctx (Suc n) \<Longrightarrow> \<exists>ctx'. push ctx = Some ctx' \<and> staysLive ctx' n"
  by (induction ctx rule: push.induct) auto

lemma localScan_runs_to_end:
  "staysLive ctx (length (fst (snd (localScan E st m cs None)))) \<Longrightarrow>
     \<exists>sent calls ctx'. localScan E st m cs ctx =
        (filter (\<lambda>c. isl (bs_Get E st c)) cs, sent, calls, Some ctx')"
proof (induction cs arbitrary: ctx)
  case Nil
  then show ?case by simp
next
  case (Cons c cs)
  obtain ms0 sn0 cl0 r0 where none: "localScan E st m cs None = (ms0, sn0, cl0, r0)"
    by (metis prod_cases4)
  show ?case
  proof (cases "bs_Get E st c")
    case (Inl err)
    with Cons.prems none have "staysLive ctx (length (fst (snd (localScan E st m cs None))))"
      by simp
    from Cons.IH [OF this] Inl show ?thesis by auto
  next
    case (Inr hit)
    show ?thesis
    proof (cases "NewAutoDecryptedBlock E (RawData hit) (m (KeyString E c))")
      case (Inl err)
      with Cons.prems none Inr
      have "staysLive ctx (length (fst (snd (localScan E st m cs None))))"
        by simp
      from Cons.IH [OF this] Inl Inr show ?thesis by auto
    next
      case hit2: (Inr hit2)
      with Cons.prems none Inr
      have "staysLive ctx (Suc (length (fst (snd (localScan E st m cs None)))))"
        by simp
      from staysLive_push [OF this] obtain ctx1 where p: "push ctx = Some ctx1"
        and live1: "staysLive ctx1 (length (fst (snd (localScan E st m cs None))))"
        by blast
      from Cons.IH [OF live1] p Inr hit2 show ?thesis by auto
    qed
  qed
qed

lemma localScan_cut_short:
  "\<not> staysLive ctx (length (fst (snd (localScan E st m cs None)))) \<Longrightarrow>
     snd (snd (snd (localScan E st m cs ctx))) = None"
proof (induction cs arbitrary: ctx)
  case Nil
  then show ?case by (cases ctx) auto
next
  case (Cons c cs)
  obtain ms0 sn0 cl0 r0 where none: "localScan E st m cs None = (ms0, sn0, cl0, r0)"
    by (metis prod_cases4)
  obtain ms1 sn1 cl1 r1 where rec: "localScan E st m cs ctx = (ms1, sn1, cl1, r1)"
    by (metis prod_cases4)
  show ?case
  proof (cases "bs_Get E st c")
    case (Inl err)
    with Cons.prems none have "\<not> staysLive ctx (length (fst (snd (localScan E st m cs None))))"
      by simp
    from Cons.IH [OF this] Inl rec show ?thesis by simp
  next
    case (Inr hit)
    show ?thesis
    proof (cases "NewAutoDecryptedBlock E (RawData hit) (m (KeyString E c))")
      case (Inl err)
      with Cons.prems none Inr
      have "\<not> staysLive ctx (length (fst (snd (localScan E st m cs None))))"
        by simp
      from Cons.IH [OF this] Inl Inr rec show ?thesis by simp
    next
      case hit2: (Inr hit2)
      with Cons.prems none Inr
      have dead: "\<not> staysLive ctx (Suc (length (fst (snd (localScan E st m cs None)))))"
        by simp
      show ?thesis
      proof (cases "push ctx")
        case None
        with Inr hit2 show ?thesis by simp
      next
        case (Some ctx1)
        with dead have "\<not> staysLive ctx1 (length (fst (snd (localScan E st m cs None))))"
          by (induction ctx rule: push.induct) auto
        from Cons.IH [OF this] Some Inr hit2 show ?thesis
          by (auto split: prod.splits)
      qed
    qed
  qed
qed

text \<open>
  Claim C3, as stated: with a nil exchange, every call of \<open>GetBlocks\<close> whose key list
  has a key absent from the store calls the batched fetch on the nil fetcher. When the
  context is done at the first send, the task returns from the \<open>select\<close> of the local
  scan before it reaches the fetch: for the request \<open>[cidA, cidB]\<close> on a store that
  holds only \<open>cidA\<close>, it returns after the first \<open>Get\<close>.
\<close>

theorem GetBlocks_nil_exchange_returns_when_done:
  "exchange (New storeA (None :: texchange option)) = None
   \<and> isl (bs_Get testEnv storeA (cid_ToPublic testEnv cidB))
   \<and> GetBlocks testEnv (New storeA None) (Some 0) [cidA, cidB]
       = (Return (), [], [BsGet cidA])"
  by (simp add: test_defs New_def GetBlocks_def getBlocks_def buildMapping_def Let_def)

text \<open>
  Claim C3, amended. Let the service have a nil exchange, and let the store's \<open>Get\<close>
  fail for the public form of at least one requested key. If the context lets through
  every send of the local scan, the background task calls \<open>GetBlocks\<close> on the nil
  fetcher and ends in the nil-dereference panic. The single-key read of the same service
  has the nil check: it returns, and none of its calls is a call to the exchange.
\<close>

theorem GetBlocks_nil_exchange_panics:
  assumes "exchange s = None"
      and "\<exists>c \<in> set ks. isl (bs_Get E (blockstore s) (cid_ToPublic E c))"
      and "staysLive ctx (length (localHits E (blockstore s) ks))"
  shows "fst (GetBlocks E s ctx ks) = Panic
       \<and> (\<forall>k \<in> set (snd (GetBlock E s c')). \<not> isExchangeCall k)"
proof -
  from assms(3)
  have "staysLive ctx (length (fst (snd (localScan E (blockstore s) (buildMapping E ks)
                (map (cid_ToPublic E) ks) None))))"
    by (simp add: localHits_def)
  from localScan_runs_to_end [OF this]
  obtain sent calls ctx' where
    scan: "localScan E (blockstore s) (buildMapping E ks) (map (cid_ToPublic E) ks) ctx
           = (filter (\<lambda>c. isl (bs_Get E (blockstore s) c)) (map (cid_ToPublic E) ks),
              sent, calls, Some ctx')"
    by blast
  from assms(2) have "filter (\<lambda>c. isl (bs_Get E (blockstore s) c)) (map (cid_ToPublic E) ks) \<noteq> []"
    by (auto simp: filter_empty_conv)
  with scan assms(1) have "fst (GetBlocks E s ctx ks) = Panic"
    by (simp add: GetBlocks_def getBlocks_def Let_def)
  moreover from assms(1) have "\<forall>k \<in> set (snd (GetBlock E s c')). \<not> isExchangeCall k"
    by (auto simp: GetBlock_def getBlock_def Let_def split: option.splits sum.splits)
  ultimately show ?thesis by simp
qed

theorem GetBlocks_nil_exchange_panics_witness:
  "exchange (New storeA (None :: texchange option)) = None
   \<and> cidB \<in> set [cidA, cidB]
   \<and> isl (bs_Get testEnv (blockstore (New storeA (None :: texchange option)))
            (cid_ToPublic testEnv cidB))
   \<and> localHits testEnv (blockstore (New storeA (None :: texchange option))) [cidA, cidB]
       = [blkA]
   \<and> staysLive (Some 1) (length [blkA])
   \<and> GetBlocks testEnv (New storeA None) (Some 1) [cidA, cidB]
       = (Panic, [blkA], [BsGet cidA, BsGet cidB])
   \<and> GetBlock testEnv (New storeA None) cidB = (Inl ErrNotFound, [BsGet cidB])"
  using GetBlocks_nil_exchange_panics
          [of "New storeA (None :: texchange option)" "[cidA, cidB]" testEnv "Some 1" cidB]
  by (simp add: test_defs New_def GetBlocks_def getBlocks_def GetBlock_def getBlock_def
                buildMapping_def localHits_def Let_def)

text \<open>
  The condition on the context is exact: when the context is done at one of the sends
  of the local scan, the task returns and the fetcher is never called.
\<close>

lemma GetBlocks_cut_short_returns:
  assumes "\<not> staysLive ctx (length (localHits E (blockstore s) ks))"
  shows "fst (GetBlocks E s ctx ks) = Return ()"
proof -
  from assms
  have "\<not> staysLive ctx (length (fst (snd (localScan E (blockstore s) (buildMapping E ks)
                (map (cid_ToPublic E) ks) None))))"
    by (simp add: localHits_def)
  from localScan_cut_short [OF this] show ?thesis
    by (auto simp: GetBlocks_def getBlocks_def Let_def split: prod.splits)
qed

text \<open>
  Claim C1. The claim is that an identifier whose public form fails the admissibility
  check is logged and left out of the request. The validation loop of \<open>getBlocks\<close>
  only logs: the scan and the miss list are built from all of \<open>ks2\<close>. For the request
  \<open>[cidBad]\<close>, whose hash function is refused, the log line is written, the store is
  queried for \<open>cidBad\<close>, and on the miss \<open>cidBad\<close> is handed to the exchange; when
  the store holds a block under \<open>cidBad\<close>, the block is sent to the caller.
\<close>

theorem GetBlocks_queries_inadmissible_key:
  "ValidateCid testEnv (cid_ToPublic testEnv cidBad) = Some (Other ''insecure hash function'')
   \<and> GetBlocks testEnv (New emptyStore (Some openExchange)) None [cidBad]
       = (Return (), [],
          [LogUnsafeCid cidBad (Other ''insecure hash function''),
           BsGet cidBad, ExGetBlocks [cidBad]])
   \<and> GetBlocks testEnv (New storeBad (Some openExchange)) None [cidBad]
       = (Return (), [blkBad],
          [LogUnsafeCid cidBad (Other ''insecure hash function''), BsGet cidBad])"
  by (simp add: test_defs cidBad_def blkBad_def storeBad_def New_def GetBlocks_def
                getBlocks_def buildMapping_def Let_def)

text \<open>
  The same for every environment: apart from the log lines, the batched read does not
  depend on the admissibility check at all.
\<close>

lemma localScan_ignores_validation:
  "localScan (E\<lparr>ValidateCid := v\<rparr>) st m cs ctx = localScan E st m cs ctx"
  by (induction cs arbitrary: ctx) (simp_all split: sum.splits option.splits)

lemma forward_ignores_validation:
  "forward (E\<lparr>ValidateCid := v\<rparr>) m rblocks ctx = forward E m rblocks ctx"
  by (induction rblocks arbitrary: ctx) (simp_all split: sum.splits option.splits)

lemma getBlocks_ignores_validation:
  "fst (getBlocks (E\<lparr>ValidateCid := v\<rparr>) ctx ks st f) = fst (getBlocks E ctx ks st f)
   \<and> fst (snd (getBlocks (E\<lparr>ValidateCid := v\<rparr>) ctx ks st f))
       = fst (snd (getBlocks E ctx ks st f))
   \<and> filter (\<lambda>k. isStoreCall k \<or> isExchangeCall k)
        (snd (snd (getBlocks (E\<lparr>ValidateCid := v\<rparr>) ctx ks st f)))
       = filter (\<lambda>k. isStoreCall k \<or> isExchangeCall k) (snd (snd (getBlocks E ctx ks st f)))"
proof -
  have logs: "filter (\<lambda>k. isStoreCall k \<or> isExchangeCall k) (logUnsafe E' cs) = []"
    for E' :: "('a, 'b, 'c) env" and cs
    by (induction cs) (simp_all split: option.splits)
  show ?thesis
    by (simp add: getBlocks_def Let_def buildMapping_def localScan_ignores_validation
                  forward_ignores_validation logs
             split: prod.splits option.splits sum.splits)
qed

lemma keepsIdentifierD:
  "keepsIdentifier E \<Longrightarrow> NewAutoDecryptedBlock E d (Some c) = Inr b \<Longrightarrow> Cid b = c"
  by (simp add: keepsIdentifier_def)


lemma fold_mapping_other:
  "key \<notin> (\<lambda>c. KeyString E (cid_ToPublic E c)) ` set ks \<Longrightarrow>
     fold (\<lambda>c m. m(KeyString E (cid_ToPublic E c) \<mapsto> c)) ks m key = m key"
  by (induction ks arbitrary: m) auto

lemma fold_mapping_distinct:
  "distinct (map (\<lambda>c. KeyString E (cid_ToPublic E c)) ks) \<Longrightarrow> k \<in> set ks \<Longrightarrow>
     fold (\<lambda>c m. m(KeyString E (cid_ToPublic E c) \<mapsto> c)) ks m (KeyString E (cid_ToPublic E k))
       = Some k"
  by (induction ks arbitrary: m) (auto simp: fold_mapping_other)

lemma buildMapping_distinct:
  "distinct (map (\<lambda>c. KeyString E (cid_ToPublic E c)) ks) \<Longrightarrow> k \<in> set ks \<Longrightarrow>
     buildMapping E ks (KeyString E (cid_ToPublic E k)) = Some k"
  by (simp add: buildMapping_def fold_mapping_distinct)

lemma localScan_misses:
  "localScan E st m cs ctx = (misses, sent, calls, r) \<Longrightarrow> c \<in> set misses \<Longrightarrow>
     c \<in> set cs \<and> isl (bs_Get E st c)"
proof (induction cs arbitrary: ctx misses sent calls r)
  case Nil
  then show ?case by simp
next
  case (Cons a cs)
  show ?case
  proof (cases "bs_Get E st a")
    case (Inl err)
    obtain ms1 sn1 cl1 r1 where rec: "localScan E st m cs ctx = (ms1, sn1, cl1, r1)"
      by (metis prod_cases4)
    with Cons.prems Inl have "misses = a # ms1" by simp
    with Cons.prems(2) Cons.IH [OF rec] Inl show ?thesis by auto
  next
    case (Inr hit)
    show ?thesis
    proof (cases "NewAutoDecryptedBlock E (RawData hit) (m (KeyString E a))")
      case (Inl err)
      obtain ms1 sn1 cl1 r1 where rec: "localScan E st m cs ctx = (ms1, sn1, cl1, r1)"
        by (metis prod_cases4)
      with Cons.prems Inl Inr have "misses = ms1" by simp
      with Cons.prems(2) Cons.IH [OF rec] show ?thesis by auto
    next
      case hit2: (Inr hit2)
      show ?thesis
      proof (cases "push ctx")
        case None
        with Cons.prems Inr hit2 show ?thesis by simp
      next
        case (Some ctx')
        obtain ms1 sn1 cl1 r1 where rec: "localScan E st m cs ctx' = (ms1, sn1, cl1, r1)"
          by (metis prod_cases4)
        with Cons.prems Inr hit2 Some have "misses = ms1" by simp
        with Cons.prems(2) Cons.IH [OF rec] show ?thesis by auto
      qed
    qed
  qed
qed

lemma localScan_sent:
  assumes decrypt: "keepsIdentifier E"
  shows "localScan E st m cs ctx = (misses, sent, calls, r) \<Longrightarrow>
     \<forall>c \<in> set cs. m (KeyString E c) \<noteq> None \<Longrightarrow> b \<in> set sent \<Longrightarrow>
     \<exists>c \<in> set cs. \<not> isl (bs_Get E st c) \<and> m (KeyString E c) = Some (Cid b)"
proof (induction cs arbitrary: ctx misses sent calls r)
  case Nil
  then show ?case by simp
next
  case (Cons a cs)
  from Cons.prems(2) have dom: "\<forall>c \<in> set cs. m (KeyString E c) \<noteq> None" by simp
  show ?case
  proof (cases "bs_Get E st a")
    case (Inl err)
    obtain ms1 sn1 cl1 r1 where rec: "localScan E st m cs ctx = (ms1, sn1, cl1, r1)"
      by (metis prod_cases4)
    with Cons.prems Inl have "sent = sn1" by simp
    with Cons.prems(3) Cons.IH [OF rec dom] show ?thesis by auto
  next
    case (Inr hit)
    show ?thesis
    proof (cases "NewAutoDecryptedBlock E (RawData hit) (m (KeyString E a))")
      case (Inl err)
      obtain ms1 sn1 cl1 r1 where rec: "localScan E st m cs ctx = (ms1, sn1, cl1, r1)"
        by (metis prod_cases4)
      with Cons.prems Inl Inr have "sent = sn1" by simp
      with Cons.prems(3) Cons.IH [OF rec dom] show ?thesis by auto
    next
      case hit2: (Inr hit2)
      from Cons.prems(2) obtain k where k: "m (KeyString E a) = Some k" by auto
      with hit2 keepsIdentifierD [OF decrypt] have cid: "Cid hit2 = k" by simp
      show ?thesis
      proof (cases "push ctx")
        case None
        with Cons.prems Inr hit2 show ?thesis by simp
      next
        case (Some ctx')
        obtain ms1 sn1 cl1 r1 where rec: "localScan E st m cs ctx' = (ms1, sn1, cl1, r1)"
          by (metis prod_cases4)
        with Cons.prems Inr hit2 Some have "sent = hit2 # sn1" by simp
        with Cons.prems(3) Cons.IH [OF rec dom] Inr k cid show ?thesis by auto
      qed
    qed
  qed
qed

lemma localScan_distinct:
  assumes decrypt: "keepsIdentifier E"
  shows "localScan E st m cs ctx = (misses, sent, calls, r) \<Longrightarrow>
     \<forall>c \<in> set cs. m (KeyString E c) \<noteq> None \<Longrightarrow>
     distinct (map (\<lambda>c. m (KeyString E c)) cs) \<Longrightarrow> distinct (map Cid sent)"
proof (induction cs arbitrary: ctx misses sent calls r)
  case Nil
  then show ?case by simp
next
  case (Cons a cs)
  from Cons.prems(2) have dom: "\<forall>c \<in> set cs. m (KeyString E c) \<noteq> None" by simp
  from Cons.prems(3) have dist: "distinct (map (\<lambda>c. m (KeyString E c)) cs)"
    and fresh: "m (KeyString E a) \<notin> (\<lambda>c. m (KeyString E c)) ` set cs" by simp_all
  show ?case
  proof (cases "bs_Get E st a")
    case (Inl err)
    obtain ms1 sn1 cl1 r1 where rec: "localScan E st m cs ctx = (ms1, sn1, cl1, r1)"
      by (metis prod_cases4)
    with Cons.prems Inl have "sent = sn1" by simp
    with Cons.IH [OF rec dom dist] show ?thesis by simp
  next
    case (Inr hit)
    show ?thesis
    proof (cases "NewAutoDecryptedBlock E (RawData hit) (m (KeyString E a))")
      case (Inl err)
      obtain ms1 sn1 cl1 r1 where rec: "localScan E st m cs ctx = (ms1, sn1, cl1, r1)"
        by (metis prod_cases4)
      with Cons.prems Inl Inr have "sent = sn1" by simp
      with Cons.IH [OF rec dom dist] show ?thesis by simp
    next
      case hit2: (Inr hit2)
      from Cons.prems(2) obtain k where k: "m (KeyString E a) = Some k" by auto
      with hit2 keepsIdentifierD [OF decrypt] have cid: "Cid hit2 = k" by simp
      show ?thesis
      proof (cases "push ctx")
        case None
        with Cons.prems Inr hit2 show ?thesis by simp
      next
        case (Some ctx')
        obtain ms1 sn1 cl1 r1 where rec: "localScan E st m cs ctx' = (ms1, sn1, cl1, r1)"
          by (metis prod_cases4)
        with Cons.prems Inr hit2 Some have sent: "sent = hit2 # sn1" by simp
        have "Cid hit2 \<notin> Cid ` set sn1"
        proof
          assume "Cid hit2 \<in> Cid ` set sn1"
          then obtain b where "b \<in> set sn1" and "Cid b = Cid hit2" by auto
          with localScan_sent [OF decrypt rec dom, where b = b]
          obtain c where "c \<in> set cs" and "m (KeyString E c) = Some (Cid hit2)" by auto
          with k cid fresh show False by force
        qed
        with sent Cons.IH [OF rec dom dist] show ?thesis by simp
      qed
    qed
  qed
qed

lemma forward_sent:
  assumes decrypt: "keepsIdentifier E"
  shows "\<forall>b \<in> set rblocks. m (KeyString E (Cid b)) \<noteq> None \<Longrightarrow>
     b2 \<in> set (forward E m rblocks ctx) \<Longrightarrow>
     \<exists>b \<in> set rblocks. m (KeyString E (Cid b)) = Some (Cid b2)"
proof (induction rblocks arbitrary: ctx)
  case Nil
  then show ?case by simp
next
  case (Cons a rblocks)
  from Cons.prems(1) obtain k where k: "m (KeyString E (Cid a)) = Some k" by auto
  from Cons.prems(1) have dom: "\<forall>b \<in> set rblocks. m (KeyString E (Cid b)) \<noteq> None" by simp
  show ?case
  proof (cases "NewAutoDecryptedBlock E (RawData a) (m (KeyString E (Cid a)))")
    case (Inl err)
    with Cons.prems(2) Cons.IH [OF dom] show ?thesis by auto
  next
    case (Inr a2)
    with k keepsIdentifierD [OF decrypt] have cid: "Cid a2 = k" by simp
    show ?thesis
    proof (cases "push ctx")
      case None
      with Cons.prems(2) Inr show ?thesis by simp
    next
      case (Some ctx')
      with Cons.prems(2) Inr Cons.IH [OF dom, of ctx'] k cid show ?thesis by auto
    qed
  qed
qed

lemma forward_distinct:
  assumes decrypt: "keepsIdentifier E"
  shows "\<forall>b \<in> set rblocks. m (KeyString E (Cid b)) \<noteq> None \<Longrightarrow>
     distinct (map (\<lambda>b. m (KeyString E (Cid b))) rblocks) \<Longrightarrow>
     distinct (map Cid (forward E m rblocks ctx))"
proof (induction rblocks arbitrary: ctx)
  case Nil
  then show ?case by simp
next
  case (Cons a rblocks)
  from Cons.prems(1) obtain k where k: "m (KeyString E (Cid a)) = Some k" by auto
  from Cons.prems(1) have dom: "\<forall>b \<in> set rblocks. m (KeyString E (Cid b)) \<noteq> None" by simp
  from Cons.prems(2) have dist: "distinct (map (\<lambda>b. m (KeyString E (Cid b))) rblocks)"
    and fresh: "m (KeyString E (Cid a)) \<notin> (\<lambda>b. m (KeyString E (Cid b))) ` set rblocks"
    by simp_all
  show ?case
  proof (cases "NewAutoDecryptedBlock E (RawData a) (m (KeyString E (Cid a)))")
    case (Inl err)
    with Cons.IH [OF dom dist] show ?thesis by simp
  next
    case (Inr a2)
    with k keepsIdentifierD [OF decrypt] have cid: "Cid a2 = k" by simp
    show ?thesis
    proof (cases "push ctx")
      case None
      with Inr show ?thesis by simp
    next
      case (Some ctx')
      have "Cid a2 \<notin> Cid ` set (forward E m rblocks ctx')"
      proof
        assume "Cid a2 \<in> Cid ` set (forward E m rblocks ctx')"
        then obtain b2 where "b2 \<in> set (forward E m rblocks ctx')" and "Cid b2 = Cid a2"
          by auto
        with forward_sent [OF decrypt dom, where ?b2.0 = b2 and ctx = ctx']
        obtain b where "b \<in> set rblocks" and "m (KeyString E (Cid b)) = Some (Cid a2)" by auto
        with k cid fresh show False by force
      qed
      with Inr Some Cons.IH [OF dom dist, of ctx'] show ?thesis by simp
    qed
  qed
qed

lemma getBlocks_sent_cases:
  assumes "localScan E st (buildMapping E ks) (map (cid_ToPublic E) ks) ctx
             = (misses, sent, calls, r)"
  shows "fst (snd (getBlocks E ctx ks st f)) = sent
       \<or> (\<exists>x rblocks ctx'. f = Some x \<and> ex_GetBlocks E x misses = Inr rblocks \<and>
            fst (snd (getBlocks E ctx ks st f))
              = sent @ forward E (buildMapping E ks) rblocks ctx')"
  using assms
  by (auto simp: getBlocks_def Let_def split: option.splits sum.splits)

lemma fold_mapping_range:
  "fold (\<lambda>c m. m(KeyString E (cid_ToPublic E c) \<mapsto> c)) ks m key = Some k \<Longrightarrow>
     k \<in> set ks \<or> m key = Some k"
proof (induction ks arbitrary: m)
  case Nil
  then show ?case by simp
next
  case (Cons a ks)
  from Cons.prems
  have "fold (\<lambda>c m. m(KeyString E (cid_ToPublic E c) \<mapsto> c)) ks
          (m(KeyString E (cid_ToPublic E a) \<mapsto> a)) key = Some k"
    by (simp only: fold_simps)
  from Cons.IH [OF this] show ?case
    by (auto split: if_splits)
qed

lemma fold_mapping_dom:
  "k \<in> set ks \<or> m (KeyString E (cid_ToPublic E k)) \<noteq> None \<Longrightarrow>
     fold (\<lambda>c m. m(KeyString E (cid_ToPublic E c) \<mapsto> c)) ks m (KeyString E (cid_ToPublic E k))
       \<noteq> None"
  by (induction ks arbitrary: m) auto

lemma buildMapping_range: "buildMapping E ks key = Some k \<Longrightarrow> k \<in> set ks"
  using fold_mapping_range [of E ks Map.empty key k] by (simp add: buildMapping_def)

lemma buildMapping_dom:
  "k \<in> set ks \<Longrightarrow> buildMapping E ks (KeyString E (cid_ToPublic E k)) \<noteq> None"
  using fold_mapping_dom [of k ks Map.empty E] by (simp add: buildMapping_def)

lemma localScan_origin:
  "localScan E st m cs ctx = (misses, sent, calls, r) \<Longrightarrow> b \<in> set sent \<Longrightarrow>
     \<exists>c \<in> set cs. \<exists>hit. bs_Get E st c = Inr hit \<and>
        NewAutoDecryptedBlock E (RawData hit) (m (KeyString E c)) = Inr b"
proof (induction cs arbitrary: ctx misses sent calls r)
  case Nil
  then show ?case by simp
next
  case (Cons a cs)
  show ?case
  proof (cases "bs_Get E st a")
    case (Inl err)
    obtain ms1 sn1 cl1 r1 where rec: "localScan E st m cs ctx = (ms1, sn1, cl1, r1)"
      by (metis prod_cases4)
    with Cons.prems Inl have "sent = sn1" by simp
    with Cons.prems(2) Cons.IH [OF rec] show ?thesis by auto
  next
    case (Inr hit)
    show ?thesis
    proof (cases "NewAutoDecryptedBlock E (RawData hit) (m (KeyString E a))")
      case (Inl err)
      obtain ms1 sn1 cl1 r1 where rec: "localScan E st m cs ctx = (ms1, sn1, cl1, r1)"
        by (metis prod_cases4)
      with Cons.prems Inl Inr have "sent = sn1" by simp
      with Cons.prems(2) Cons.IH [OF rec] show ?thesis by auto
    next
      case hit2: (Inr hit2)
      show ?thesis
      proof (cases "push ctx")
        case None
        with Cons.prems Inr hit2 show ?thesis by simp
      next
        case (Some ctx')
        obtain ms1 sn1 cl1 r1 where rec: "localScan E st m cs ctx' = (ms1, sn1, cl1, r1)"
          by (metis prod_cases4)
        with Cons.prems Inr hit2 Some have "sent = hit2 # sn1" by simp
        with Cons.prems(2) Cons.IH [OF rec] Inr hit2 show ?thesis by auto
      qed
    qed
  qed
qed

lemma forward_origin:
  "b2 \<in> set (forward E m rblocks ctx) \<Longrightarrow>
     \<exists>b \<in> set rblocks. NewAutoDecryptedBlock E (RawData b) (m (KeyString E (Cid b))) = Inr b2"
proof (induction rblocks arbitrary: ctx)
  case Nil
  then show ?case by simp
next
  case (Cons a rblocks)
  show ?case
  proof (cases "NewAutoDecryptedBlock E (RawData a) (m (KeyString E (Cid a)))")
    case (Inl err)
    with Cons.prems Cons.IH show ?thesis by auto
  next
    case (Inr a2)
    show ?thesis
    proof (cases "push ctx")
      case None
      with Cons.prems Inr show ?thesis by simp
    next
      case (Some ctx')
      with Cons.prems Inr Cons.IH [of ctx'] show ?thesis by auto
    qed
  qed
qed

lemma getBlocks_within_request:
  assumes decrypt: "keepsIdentifier E"
      and exch: "rejectsNil E \<or> (case f of None \<Rightarrow> True | Some x \<Rightarrow> deliversOnlyRequested E x)"
  shows "Cid ` set (fst (snd (getBlocks E ctx ks st f))) \<subseteq> set ks"
proof -
  define m where "m = buildMapping E ks"
  define ks2 where "ks2 = map (cid_ToPublic E) ks"
  obtain misses sent calls r where
    scan: "localScan E st m ks2 ctx = (misses, sent, calls, r)"
    by (metis prod_cases4)
  have dom: "m (KeyString E c) \<noteq> None" if "c \<in> set ks2" for c
  proof -
    from that obtain k where "k \<in> set ks" and "c = cid_ToPublic E k"
      by (auto simp: ks2_def)
    with buildMapping_dom [of k ks E] show ?thesis
      by (simp add: m_def)
  qed
  have built: "Cid b \<in> set ks"
    if "NewAutoDecryptedBlock E d (m key) = Inr b" and "m key \<noteq> None" for d key b
  proof -
    from that(2) obtain k where k: "m key = Some k" by auto
    with that(1) decrypt have "Cid b = k" by (simp add: keepsIdentifierD)
    with k show ?thesis by (auto simp: m_def dest: buildMapping_range)
  qed
  have local: "Cid ` set sent \<subseteq> set ks"
  proof
    fix k assume "k \<in> Cid ` set sent"
    then obtain b where "b \<in> set sent" and "k = Cid b" by auto
    with localScan_origin [OF scan] dom built show "k \<in> set ks" by blast
  qed
  from scan have "localScan E st (buildMapping E ks) (map (cid_ToPublic E) ks) ctx
                    = (misses, sent, calls, r)"
    by (simp add: m_def ks2_def)
  from getBlocks_sent_cases [OF this, of f]
  consider (only_local) "fst (snd (getBlocks E ctx ks st f)) = sent"
    | (remote) x rblocks ctx' where "f = Some x"
        and "ex_GetBlocks E x misses = Inr rblocks"
        and "fst (snd (getBlocks E ctx ks st f)) = sent @ forward E m rblocks ctx'"
    by (auto simp: m_def)
  then show ?thesis
  proof cases
    case only_local
    with local show ?thesis by simp
  next
    case remote
    have "Cid ` set (forward E m rblocks ctx') \<subseteq> set ks"
    proof
      fix k assume "k \<in> Cid ` set (forward E m rblocks ctx')"
      then obtain b2 where b2: "b2 \<in> set (forward E m rblocks ctx')" and k: "k = Cid b2" by auto
      from forward_origin [OF b2] obtain b where b: "b \<in> set rblocks"
        and made: "NewAutoDecryptedBlock E (RawData b) (m (KeyString E (Cid b))) = Inr b2"
        by blast
      have "m (KeyString E (Cid b)) \<noteq> None"
      proof
        assume none: "m (KeyString E (Cid b)) = None"
        from exch show False
        proof
          assume "rejectsNil E"
          then have "isl (NewAutoDecryptedBlock E (RawData b) None)"
            by (simp add: rejectsNil_def)
          with made none show False by simp
        next
          assume "case f of None \<Rightarrow> True | Some x \<Rightarrow> deliversOnlyRequested E x"
          with remote(1,2) b have "Cid b \<in> set misses"
            by (auto simp: deliversOnlyRequested_def)
          with localScan_misses [OF scan] have "Cid b \<in> set ks2" by blast
          with dom none show False by blast
        qed
      qed
      with made built k show "k \<in> set ks" by blast
    qed
    with remote(3) local show ?thesis by auto
  qed
qed

lemma GetBlocks_no_repeats:
  assumes decrypt: "keepsIdentifier E"
      and keys: "distinct (map (\<lambda>c. KeyString E (cid_ToPublic E c)) ks)"
      and exch: "case exchange s of None \<Rightarrow> True
                 | Some x \<Rightarrow> deliversOnlyRequested E x \<and> deliversNoRepeats E x"
  shows "set (map Cid (fst (snd (GetBlocks E s ctx ks)))) \<subseteq> set ks
       \<and> distinct (map Cid (fst (snd (GetBlocks E s ctx ks))))"
proof -
  define m where "m = buildMapping E ks"
  define g where "g = (\<lambda>c. m (KeyString E c))"
  define ks2 where "ks2 = map (cid_ToPublic E) ks"
  define st where "st = blockstore s"
  have g: "g (cid_ToPublic E k) = Some k" if "k \<in> set ks" for k
    using that keys by (simp add: g_def m_def buildMapping_distinct)
  have dom: "\<forall>c \<in> set ks2. m (KeyString E c) \<noteq> None"
    using g by (auto simp: ks2_def g_def)
  have "map g ks2 = map Some ks"
    using g by (simp add: ks2_def)
  moreover from keys have "distinct ks"
    by (simp add: distinct_map)
  ultimately have gdist: "distinct (map g ks2)"
    by (simp add: distinct_map)
  then have ginj: "inj_on g (set ks2)"
    by (simp add: distinct_map)
  have gks: "k \<in> set ks" if "c \<in> set ks2" and "g c = Some k" for c k
    using that g by (auto simp: ks2_def)
  obtain misses sent calls r where
    scan: "localScan E st m ks2 ctx = (misses, sent, calls, r)"
    by (metis prod_cases4)
  have local: "\<exists>c \<in> set ks2. \<not> isl (bs_Get E st c) \<and> g c = Some (Cid b)"
    if "b \<in> set sent" for b
    using localScan_sent [OF decrypt scan dom that] by (simp add: g_def)
  have local_set: "Cid ` set sent \<subseteq> set ks"
    using local gks by blast
  have local_dist: "distinct (map Cid sent)"
    using localScan_distinct [OF decrypt scan dom] gdist by (simp add: g_def)
  have miss: "c \<in> set ks2 \<and> isl (bs_Get E st c)" if "c \<in> set misses" for c
    using localScan_misses [OF scan that] .
  from scan have "localScan E st (buildMapping E ks) (map (cid_ToPublic E) ks) ctx
                    = (misses, sent, calls, r)"
    by (simp add: m_def ks2_def)
  from getBlocks_sent_cases [OF this, of "exchange s"]
  consider (only_local) "fst (snd (GetBlocks E s ctx ks)) = sent"
    | (remote) x rblocks ctx' where "exchange s = Some x"
        and "ex_GetBlocks E x misses = Inr rblocks"
        and "fst (snd (GetBlocks E s ctx ks)) = sent @ forward E m rblocks ctx'"
    by (auto simp: GetBlocks_def st_def m_def)
  then show ?thesis
  proof cases
    case only_local
    with local_set local_dist show ?thesis by simp
  next
    case remote
    from exch remote(1) have "deliversOnlyRequested E x" and "deliversNoRepeats E x"
      by simp_all
    with remote(2) have rdist: "distinct (map Cid rblocks)"
      and rsub: "Cid ` set rblocks \<subseteq> set misses"
      by (auto simp: deliversOnlyRequested_def deliversNoRepeats_def)
    from rsub miss have rks2: "Cid ` set rblocks \<subseteq> set ks2" by blast
    with dom have rdom: "\<forall>b \<in> set rblocks. m (KeyString E (Cid b)) \<noteq> None" by blast
    from ginj rks2 have "inj_on g (Cid ` set rblocks)"
      by (rule inj_on_subset)
    with rdist have "distinct (map g (map Cid rblocks))"
      by (simp add: distinct_map del: map_map)
    then have rgdist: "distinct (map (\<lambda>b. m (KeyString E (Cid b))) rblocks)"
      by (simp add: g_def comp_def)
    let ?fw = "forward E m rblocks ctx'"
    have fw: "\<exists>b \<in> set rblocks. g (Cid b) = Some (Cid b2)" if "b2 \<in> set ?fw" for b2
      using forward_sent [OF decrypt rdom that] by (simp add: g_def)
    have fw_set: "Cid ` set ?fw \<subseteq> set ks"
      using fw rks2 gks by blast
    have fw_dist: "distinct (map Cid ?fw)"
      using forward_distinct [OF decrypt rdom rgdist] .
    have disj: "Cid ` set sent \<inter> Cid ` set ?fw = {}"
    proof (rule ccontr)
      assume "Cid ` set sent \<inter> Cid ` set ?fw \<noteq> {}"
      then obtain b1 b2 where b1: "b1 \<in> set sent" and b2: "b2 \<in> set ?fw"
        and eq: "Cid b1 = Cid b2" by auto
      from local [OF b1] obtain c where c: "c \<in> set ks2" "\<not> isl (bs_Get E st c)"
        "g c = Some (Cid b1)" by blast
      from fw [OF b2] obtain b where b: "b \<in> set rblocks" "g (Cid b) = Some (Cid b2)"
        by blast
      from b(1) rsub miss have cb: "Cid b \<in> set ks2" "isl (bs_Get E st (Cid b))" by auto
      from c(3) b(2) eq have "g c = g (Cid b)" by simp
      with ginj c(1) cb(1) have "c = Cid b" by (auto dest: inj_onD)
      with c(2) cb(2) show False by simp
    qed
    from remote(3) local_set fw_set local_dist fw_dist disj show ?thesis by simp
  qed
qed

text \<open>
  Claim C2, as stated: for every set \<open>K\<close> of requested keys the stream carries no
  block for a key outside \<open>K\<close> and at most one block per key of \<open>K\<close>, even when the
  exchange's channel repeats blocks. The code forwards what it finds, with no check for
  repeats. Three requests, each answered with two blocks for one key:
  \<^item> \<open>[cidB]\<close> on an empty store, with an exchange whose channel carries the block of
    \<open>cidB\<close> twice;
  \<^item> \<open>[cidA, cidAKey]\<close>, two different keys with the same public form, on a store that
    holds that public form: the map from key strings to keys keeps the later key, and
    both hits are sent under it;
  \<^item> \<open>[cidA, cidB]\<close> on a store that holds \<open>cidA\<close>, with an exchange that also
    delivers the block of \<open>cidA\<close>, which was not asked for.
\<close>

theorem GetBlocks_forwards_duplicates:
  "GetBlocks testEnv (New emptyStore (Some repeatingExchange)) None [cidB]
     = (Return (), [blkB, blkB], [BsGet cidB, ExGetBlocks [cidB]])
   \<and> \<not> distinct (map Cid (fst (snd
          (GetBlocks testEnv (New emptyStore (Some repeatingExchange)) None [cidB]))))
   \<and> cidA \<noteq> cidAKey
   \<and> GetBlocks testEnv (New storeA (Some openExchange)) None [cidA, cidAKey]
       = (Return (),
          [\<lparr>Cid = cidAKey, RawData = ''alpha''\<rparr>, \<lparr>Cid = cidAKey, RawData = ''alpha''\<rparr>],
          [BsGet cidA, BsGet cidA])
   \<and> GetBlocks looseEnv (New storeA (Some eagerExchange)) None [cidA, cidB]
       = (Return (), [blkA, blkA, blkB], [BsGet cidA, BsGet cidB, ExGetBlocks [cidB]])"
  by (simp add: test_defs looseEnv_def eagerExchange_def cidAKey_def repeatingExchange_def
                New_def GetBlocks_def getBlocks_def buildMapping_def Let_def)

text \<open>
  Claim C2, amended. Let \<open>NewAutoDecryptedBlock\<close> return blocks that carry the
  identifier it was given. For every list of requested keys and every context:
  \<^item> if \<open>NewAutoDecryptedBlock\<close> fails for a nil identifier, or the exchange's channel
    carries only blocks that were asked for, every block of the stream carries a
    requested key, also when the exchange's channel repeats or omits blocks;
  \<^item> if the requested keys have pairwise distinct key strings in public form and the
    exchange's channel carries only blocks that were asked for, none twice, no two
    blocks of the stream carry the same key.
\<close>

theorem GetBlocks_emits_requested_keys_once:
  "(keepsIdentifier E \<and>
    (rejectsNil E \<or>
     (case exchange s of None \<Rightarrow> True | Some x \<Rightarrow> deliversOnlyRequested E x)) \<longrightarrow>
      set (map Cid (fst (snd (GetBlocks E s ctx ks)))) \<subseteq> set ks)
   \<and> (keepsIdentifier E \<and>
      distinct (map (\<lambda>c. KeyString E (cid_ToPublic E c)) ks) \<and>
      (case exchange s of None \<Rightarrow> True
       | Some x \<Rightarrow> deliversOnlyRequested E x \<and> deliversNoRepeats E x) \<longrightarrow>
        distinct (map Cid (fst (snd (GetBlocks E s ctx ks)))))"
proof (intro conjI impI)
  assume "keepsIdentifier E \<and>
    (rejectsNil E \<or>
     (case exchange s of None \<Rightarrow> True | Some x \<Rightarrow> deliversOnlyRequested E x))"
  then show "set (map Cid (fst (snd (GetBlocks E s ctx ks)))) \<subseteq> set ks"
    using getBlocks_within_request [of E "exchange s" ctx ks "blockstore s"]
    by (simp add: GetBlocks_def)
next
  assume "keepsIdentifier E \<and>
      distinct (map (\<lambda>c. KeyString E (cid_ToPublic E c)) ks) \<and>
      (case exchange s of None \<Rightarrow> True
       | Some x \<Rightarrow> deliversOnlyRequested E x \<and> deliversNoRepeats E x)"
  then show "distinct (map Cid (fst (snd (GetBlocks E s ctx ks))))"
    using GetBlocks_no_repeats [of E ks s ctx] by simp
qed

theorem GetBlocks_emits_requested_keys_once_witness:
  "keepsIdentifier testEnv \<and> rejectsNil testEnv
   \<and> GetBlocks testEnv (New emptyStore (Some repeatingExchange)) None [cidB]
       = (Return (), [blkB, blkB], [BsGet cidB, ExGetBlocks [cidB]])
   \<and> set (map Cid [blkB, blkB]) \<subseteq> set [cidB]
   \<and> distinct (map (\<lambda>c. KeyString testEnv (cid_ToPublic testEnv c)) [cidA, cidB])
   \<and> deliversOnlyRequested testEnv openExchange \<and> deliversNoRepeats testEnv openExchange
   \<and> GetBlocks testEnv (New storeA (Some openExchange)) None [cidA, cidB]
       = (Return (), [blkA, blkB], [BsGet cidA, BsGet cidB, ExGetBlocks [cidB]])
   \<and> distinct (map Cid [blkA, blkB])"
proof -
  have k: "keepsIdentifier testEnv"
    by (auto simp: keepsIdentifier_def testEnv_def testDecrypted_def split: option.splits)
  have n: "rejectsNil testEnv"
    by (simp add: rejectsNil_def testEnv_def testDecrypted_def)
  have d: "distinct (map (\<lambda>c. KeyString testEnv (cid_ToPublic testEnv c)) [cidA, cidB])"
    by (simp add: test_defs)
  have x1: "deliversOnlyRequested testEnv openExchange"
    by (auto simp: deliversOnlyRequested_def testEnv_def testFetchMany_def openExchange_def)
  have x2: "deliversNoRepeats testEnv openExchange"
    by (auto simp: deliversNoRepeats_def testEnv_def testFetchMany_def openExchange_def)
  have e: "exchange (New storeA (Some openExchange)) = Some openExchange"
    by (simp add: New_def)
  have run1: "GetBlocks testEnv (New emptyStore (Some repeatingExchange)) None [cidB]
      = (Return (), [blkB, blkB], [BsGet cidB, ExGetBlocks [cidB]])"
    by (simp add: test_defs repeatingExchange_def New_def GetBlocks_def getBlocks_def
                  buildMapping_def Let_def)
  have run2: "GetBlocks testEnv (New storeA (Some openExchange)) None [cidA, cidB]
      = (Return (), [blkA, blkB], [BsGet cidA, BsGet cidB, ExGetBlocks [cidB]])"
    by (simp add: test_defs New_def GetBlocks_def getBlocks_def buildMapping_def Let_def)
  from GetBlocks_emits_requested_keys_once
         [of testEnv "New emptyStore (Some repeatingExchange)" None "[cidB]"]
       GetBlocks_emits_requested_keys_once
         [of testEnv "New storeA (Some openExchange)" None "[cidA, cidB]"]
       k n d x1 x2 e run1 run2
  show ?thesis
    by simp
qed

end
